theory Spec2Isabelle
  imports Complex_Main
begin

section \<open>Time\<close>

text \<open>
  The tracker reads the clock with \<^verbatim>\<open>datetime.now()\<close>: a naive local date and time with
  microsecond resolution. A datetime is modelled as the number of microseconds since a
  local midnight taken as the epoch, a timedelta as a number of microseconds. Every local
  day has 86400 seconds (naive datetimes know no time zone). The value of
  \<^verbatim>\<open>total_seconds()\<close>, a float in the source, is kept exact: a duration is counted in
  microseconds throughout, so \<open>n\<close> seconds are \<open>n * second\<close>.
\<close>

definition second :: int where
  "second = 1000000"

definition minute :: int where
  "minute = 60 * second"

definition hour :: int where
  "hour = 3600 * second"

definition day :: int where
  "day = 86400 * second"

text \<open>\<^verbatim>\<open>dt.date()\<close>, as a day number.\<close>

definition date :: "int \<Rightarrow> int" where
  "date t = t div day"

text \<open>\<^verbatim>\<open>datetime.combine(d, datetime.min.time())\<close>: midnight at the start of day \<open>d\<close>.\<close>

definition combine_min :: "int \<Rightarrow> int" where
  "combine_min d = d * day"

text \<open>
  A field that holds an ISO timestamp string or nothing. \<open>Absent\<close> is a missing key,
  \<^verbatim>\<open>None\<close> or the empty string (all falsy in the source); \<open>At t\<close> is a string that
  \<^verbatim>\<open>datetime.fromisoformat\<close> parses to \<open>t\<close>; \<open>Malformed\<close> is a truthy value on which
  \<^verbatim>\<open>fromisoformat\<close> raises ValueError or TypeError (the source catches both).
\<close>

datatype stamp = Absent | At int | Malformed

section \<open>Data model\<close>

text \<open>
  The dictionaries of \<^verbatim>\<open>self.tasks\<close>, \<^verbatim>\<open>self.time_logs\<close>, \<^verbatim>\<open>self.reminders\<close> and
  \<^verbatim>\<open>self.active_timer\<close> are records of their keys. Keys that the loader checks or
  defaults are always present in memory; a key that may be missing is a \<open>stamp\<close> or an
  option. \<^verbatim>\<open>units\<close>, \<^verbatim>\<open>done\<close> and \<^verbatim>\<open>time_hours\<close> are floats in the source and
  rationals here.
\<close>

record task =
  t_id :: int
  t_name :: string
  t_units :: rat
  t_done :: rat
  t_created :: stamp
  t_archived :: bool
  t_is_today :: bool

record log_entry =
  l_task_id :: int
  l_start :: stamp
  l_end :: stamp
  l_duration :: int

record reminder =
  r_id :: int
  r_name :: string
  r_time_hours :: rat
  r_created :: stamp
  r_enabled :: bool
  r_snoozed_until :: stamp
  r_sound :: bool
  r_is_relative :: bool
  r_next_fire_at :: stamp

text \<open>
  The active timer is never validated key by key: the source reads it with
  \<^verbatim>\<open>.get('task_id')\<close>, \<^verbatim>\<open>.get('start_time')\<close> and \<^verbatim>\<open>.get('elapsed', 0)\<close>.
\<close>

record timer =
  a_task_id :: "int option"
  a_start_time :: stamp
  a_elapsed :: "int option"

text \<open>The desktop notifications the tracker sends, by kind.\<close>

datatype notification =
  TaskComplete string
  | TimerCleared
  | GapTrimmed int
  | Quarantined

datatype error = KeyError

text \<open>
  The fields of \<^verbatim>\<open>Tracker\<close> that hold its state; \<open>sent\<close> lists the notifications sent
  so far, oldest first. The widgets, the handles of the armed GLib timers and the
  selection of the task combo box (\<^verbatim>\<open>selected_task_id\<close>) are left out.
\<close>

record state =
  tasks :: "task list"
  time_logs :: "log_entry list"
  reminders :: "reminder list"
  active_timer :: "timer option"
  is_timer_running :: bool
  next_task_id :: int
  last_tick_time :: "int option"
  sent :: "notification list"

text \<open>The state that \<^verbatim>\<open>__init__\<close> sets up before it loads the state file.\<close>

definition init_state :: state where
  "init_state =
     \<lparr>tasks = [], time_logs = [], reminders = [], active_timer = None,
      is_timer_running = False, next_task_id = 1, last_tick_time = None,
      sent = []\<rparr>"

section \<open>Timer engine\<close>

definition max_session_sec :: int where
  "max_session_sec = 16 * 3600 * second"

definition idle_cap :: int where
  "idle_cap = 3600 * second"

text \<open>
  The loop of \<^verbatim>\<open>stop_timer\<close>: while the current start lies on an earlier day than the
  end, log the segment up to the next midnight and continue from there. It returns the
  log, what remains of the elapsed time, and the start of the last segment.
\<close>

function split_days ::
  "int \<Rightarrow> int \<Rightarrow> int \<Rightarrow> int \<Rightarrow> log_entry list \<Rightarrow> log_entry list \<times> int \<times> int" where
  "split_days tid end_dt cur_start remaining logs =
     (if date cur_start < date end_dt then
        (let day_end = combine_min (date cur_start + 1);
             seg_dur = day_end - cur_start
         in split_days tid end_dt day_end (remaining - seg_dur)
              (logs @ [\<lparr>l_task_id = tid, l_start = At cur_start, l_end = At day_end,
                        l_duration = seg_dur\<rparr>]))
      else (logs, remaining, cur_start))"
  by pat_completeness auto
termination
proof (relation "measure (\<lambda>(tid, end_dt, cur_start, remaining, logs).
    nat (date end_dt - date cur_start))")
  show "wf (measure (\<lambda>(tid, end_dt, cur_start, remaining, logs).
    nat (date end_dt - date cur_start)))"
    by simp
next
  fix tid end_dt cur_start remaining :: int and logs :: "log_entry list"
    and x xa :: int
  assume lt: "date cur_start < date end_dt"
    and x: "x = combine_min (date cur_start + 1)"
  have "date x = date cur_start + 1"
    unfolding x by (simp add: date_def combine_min_def day_def second_def)
  with lt show "((tid, end_dt, x, remaining - xa,
      logs @ [\<lparr>l_task_id = tid, l_start = At cur_start, l_end = At x, l_duration = xa\<rparr>]),
      tid, end_dt, cur_start, remaining, logs)
    \<in> measure (\<lambda>(tid, end_dt, cur_start, remaining, logs).
        nat (date end_dt - date cur_start))"
    by simp
qed

declare split_days.simps [simp del]

text \<open>
  \<^verbatim>\<open>stop_timer\<close>. The elapsed time is the stored one plus, for a running timer, the time
  since the stored start; the end of the session is computed from it before it is clamped
  to \<open>max_session_sec\<close>. A session of more than a second is logged, split at midnights.
  Logging reads \<^verbatim>\<open>self.active_timer['task_id']\<close>, which raises KeyError on a timer without
  that key, before anything has been changed. In every other case the timer is discarded.
\<close>

definition stop_timer :: "int \<Rightarrow> state \<Rightarrow> error + state" where
  "stop_timer now s =
     (case active_timer s of
        None \<Rightarrow> Inr (s\<lparr>active_timer := None, is_timer_running := False\<rparr>)
      | Some a \<Rightarrow>
          (let elapsed0 = max 0 (case a_elapsed a of None \<Rightarrow> 0 | Some e \<Rightarrow> e);
               elapsed1 = (case a_start_time a of
                             At st \<Rightarrow> elapsed0 + max 0 (now - st)
                           | _ \<Rightarrow> elapsed0);
               start_dt = (case a_start_time a of
                             At st \<Rightarrow> st
                           | _ \<Rightarrow> now - elapsed1);
               end_dt = start_dt + max 0 elapsed1;
               elapsed = min elapsed1 max_session_sec
           in if elapsed > 1 * second then
                (case a_task_id a of
                   None \<Rightarrow> Inl KeyError
                 | Some tid \<Rightarrow>
                     (case split_days tid end_dt start_dt (max 0 elapsed) (time_logs s) of
                        (logs, remaining, cur_start) \<Rightarrow>
                          Inr (s\<lparr>time_logs :=
                                   (if remaining > 0 then
                                      logs @ [\<lparr>l_task_id = tid, l_start = At cur_start,
                                                l_end = At end_dt, l_duration = remaining\<rparr>]
                                    else logs),
                                 active_timer := None, is_timer_running := False\<rparr>)))
              else Inr (s\<lparr>active_timer := None, is_timer_running := False\<rparr>)))"

text \<open>
  The \<^verbatim>\<open>tick\<close> closure of \<^verbatim>\<open>start_timer_loop\<close>, run every second while the timer
  exists. It returns the new state and the elapsed time it displays (\<open>None\<close>: there is no
  timer and the loop ends). A gap of more than \<open>idle_cap\<close> since the last tick moves the
  start of a timer that has one to \<open>idle_cap\<close> before now and shows the stored elapsed
  time plus \<open>idle_cap\<close>.
\<close>

definition tick :: "int \<Rightarrow> state \<Rightarrow> state \<times> int option" where
  "tick now s =
     (case active_timer s of
        None \<Rightarrow> (s, None)
      | Some a \<Rightarrow>
          (let stored = (case a_elapsed a of None \<Rightarrow> 0 | Some e \<Rightarrow> e);
               elapsed = (case a_start_time a of
                            At start \<Rightarrow> stored + (now - start)
                          | _ \<Rightarrow> stored)
           in case last_tick_time s of
                None \<Rightarrow> (s\<lparr>last_tick_time := Some now\<rparr>, Some elapsed)
              | Some lt \<Rightarrow>
                  (let gap = now - lt in
                   if gap > idle_cap then
                     (if a_start_time a \<noteq> Absent then
                        (s\<lparr>active_timer := Some (a\<lparr>a_start_time := At (now - idle_cap)\<rparr>),
                           last_tick_time := Some now,
                           sent := sent s @ [GapTrimmed (gap div minute)]\<rparr>,
                         Some (stored + idle_cap))
                      else (s\<lparr>last_tick_time := Some now\<rparr>, Some elapsed))
                   else (s\<lparr>last_tick_time := Some now\<rparr>, Some elapsed))))"

text \<open>\<^verbatim>\<open>start_timer_loop\<close>: note the time, arm the loop and tick at once.\<close>

definition start_timer_loop :: "int \<Rightarrow> state \<Rightarrow> state" where
  "start_timer_loop now s = fst (tick now (s\<lparr>last_tick_time := Some now\<rparr>))"

section \<open>Task registry\<close>

text \<open>
  \<^verbatim>\<open>add_task\<close>, for the stripped text of the name entry and the parsed number of units
  (1 when the units entry is empty or does not parse).
\<close>

definition add_task :: "string \<Rightarrow> rat \<Rightarrow> int \<Rightarrow> state \<Rightarrow> state" where
  "add_task name units now s =
     (if name = [] then s
      else
        (let tid = next_task_id s in
         s\<lparr>next_task_id := tid + 1,
           tasks := tasks s @
             [\<lparr>t_id = tid, t_name = name, t_units = units, t_done = 0, t_created = At now,
               t_archived = False, t_is_today = True\<rparr>]\<rparr>))"

text \<open>
  The loop of \<^verbatim>\<open>inc_task\<close>: the first task with the id is incremented, and the loop
  breaks. It returns the tasks, \<^verbatim>\<open>task_name\<close> and \<^verbatim>\<open>completed\<close>.
\<close>

fun inc_loop :: "int \<Rightarrow> task list \<Rightarrow> task list \<times> string option \<times> bool" where
  "inc_loop tid [] = ([], None, False)"
| "inc_loop tid (t # ts) =
     (if t_id t = tid then
        (let t' = t\<lparr>t_done := min (t_done t + 1) (t_units t)\<rparr> in
         if t_done t' \<ge> t_units t' then (t' # ts, Some (t_name t'), True)
         else (t' # ts, None, False))
      else (case inc_loop tid ts of (ts', task_name, completed) \<Rightarrow>
              (t # ts', task_name, completed)))"

text \<open>
  \<^verbatim>\<open>inc_task\<close>: the notification is sent when \<^verbatim>\<open>completed and task_name\<close> holds (an
  empty name is falsy).
\<close>

definition inc_task :: "int \<Rightarrow> state \<Rightarrow> state" where
  "inc_task tid s =
     (case inc_loop tid (tasks s) of
        (ts, task_name, completed) \<Rightarrow>
          (case task_name of
             Some n \<Rightarrow>
               (if completed \<and> n \<noteq> [] then
                  s\<lparr>tasks := ts, sent := sent s @ [TaskComplete n]\<rparr>
                else s\<lparr>tasks := ts\<rparr>)
           | None \<Rightarrow> s\<lparr>tasks := ts\<rparr>))"

fun dec_loop :: "int \<Rightarrow> task list \<Rightarrow> task list" where
  "dec_loop tid [] = []"
| "dec_loop tid (t # ts) =
     (if t_id t = tid then t\<lparr>t_done := max (t_done t - 1) 0\<rparr> # ts
      else t # dec_loop tid ts)"

definition dec_task :: "int \<Rightarrow> state \<Rightarrow> state" where
  "dec_task tid s = s\<lparr>tasks := dec_loop tid (tasks s)\<rparr>"

text \<open>
  \<^verbatim>\<open>del_task\<close>: a timer on the task is stopped first, so that its time is logged; the
  time logs of the task stay.
\<close>

definition del_task :: "int \<Rightarrow> int \<Rightarrow> state \<Rightarrow> error + state" where
  "del_task now tid s =
     (case (case active_timer s of
              Some a \<Rightarrow> if a_task_id a = Some tid then stop_timer now s else Inr s
            | None \<Rightarrow> Inr s) of
        Inl e \<Rightarrow> Inl e
      | Inr s1 \<Rightarrow> Inr (s1\<lparr>tasks := filter (\<lambda>t. t_id t \<noteq> tid) (tasks s1)\<rparr>))"

text \<open>A sequence of clicks on the plus and minus buttons of task rows.\<close>

datatype progress_op = Inc int | Dec int

fun apply_progress :: "progress_op list \<Rightarrow> state \<Rightarrow> state" where
  "apply_progress [] s = s"
| "apply_progress (Inc tid # ops) s = apply_progress ops (inc_task tid s)"
| "apply_progress (Dec tid # ops) s = apply_progress ops (dec_task tid s)"

section \<open>Reminder scheduler\<close>

text \<open>
  \<^verbatim>\<open>timedelta(hours=h)\<close> for a float \<open>h\<close>: the nearest whole number of microseconds,
  a tie going to the even one.
\<close>

definition round_half_even :: "rat \<Rightarrow> int" where
  "round_half_even x =
     (let f = \<lfloor>x\<rfloor>; r = x - of_int f in
      if r < 1 / 2 then f
      else if 1 / 2 < r then f + 1
      else if even f then f
      else f + 1)"

definition timedelta_hours :: "rat \<Rightarrow> int" where
  "timedelta_hours h = round_half_even (h * of_int hour)"

text \<open>\<^verbatim>\<open>max(xs, default=d)\<close>.\<close>

fun max_default :: "int list \<Rightarrow> int \<Rightarrow> int" where
  "max_default [] d = d"
| "max_default (x # xs) d = fold max xs x"

text \<open>
  \<^verbatim>\<open>schedule_reminder\<close>. It returns the reminder, with the target written to
  \<^verbatim>\<open>next_fire_at\<close>, and the delay in milliseconds of the one-shot timer it arms (\<open>None\<close>:
  the reminder is disabled and only its timer is cancelled). The target is a snooze that
  lies in the future, else a stored \<^verbatim>\<open>next_fire_at\<close> that lies in the future, else the
  base target.
\<close>

definition schedule_reminder :: "int \<Rightarrow> reminder \<Rightarrow> reminder \<times> int option" where
  "schedule_reminder now rem =
     (if \<not> r_enabled rem then (rem, None)
      else
        (let snooze_dt = (case r_snoozed_until rem of At t \<Rightarrow> Some t | _ \<Rightarrow> None);
             stored_target = (case r_next_fire_at rem of
                                At t \<Rightarrow> if t > now then Some t else None
                              | _ \<Rightarrow> None);
             base_target =
               (if r_is_relative rem then now + timedelta_hours (r_time_hours rem)
                else
                  (let b = combine_min (date now) + timedelta_hours (r_time_hours rem)
                   in if b \<le> now then b + day else b));
             armed = (\<lambda>target r.
               (r\<lparr>r_next_fire_at := At target\<rparr>,
                Some (max 1000 ((target - now) div 1000))))
         in case (case snooze_dt of
                    Some sn \<Rightarrow> if sn > now then Some sn else None
                  | None \<Rightarrow> None) of
              Some sn \<Rightarrow> armed sn rem
            | None \<Rightarrow>
                (case stored_target of
                   Some st \<Rightarrow> armed st rem
                 | None \<Rightarrow> armed base_target (rem\<lparr>r_snoozed_until := Absent\<rparr>))))"

text \<open>
  \<^verbatim>\<open>add_reminder\<close>, for a non-empty time text that parses to \<open>hours\<close> and is relative
  or not. The clock is read once for \<^verbatim>\<open>created\<close> and once more by
  \<^verbatim>\<open>schedule_reminder\<close>.
\<close>

definition add_reminder :: "string \<Rightarrow> rat \<Rightarrow> bool \<Rightarrow> int \<Rightarrow> int \<Rightarrow> state \<Rightarrow> state" where
  "add_reminder name hours is_relative created now s =
     (if name = [] then s
      else
        (let rid = max_default (map r_id (reminders s)) 0 + 1;
             rem = \<lparr>r_id = rid, r_name = name, r_time_hours = hours,
                    r_created = At created, r_enabled = True, r_snoozed_until = Absent,
                    r_sound = False, r_is_relative = is_relative, r_next_fire_at = Absent\<rparr>
         in s\<lparr>reminders := reminders s @ [fst (schedule_reminder now rem)]\<rparr>))"

definition del_reminder :: "int \<Rightarrow> state \<Rightarrow> state" where
  "del_reminder rid s = s\<lparr>reminders := filter (\<lambda>r. r_id r \<noteq> rid) (reminders s)\<rparr>"

text \<open>\<^verbatim>\<open>schedule_all_reminders\<close>, the clock read at \<open>now\<close> for each reminder.\<close>

definition schedule_all_reminders :: "int \<Rightarrow> state \<Rightarrow> state" where
  "schedule_all_reminders now s =
     s\<lparr>reminders := map (\<lambda>r. fst (schedule_reminder now r)) (reminders s)\<rparr>"

section \<open>State store\<close>

text \<open>
  The state file is one JSON document. A dictionary read from it may lack any key, so a
  record as it stands in the file carries each key that the loader checks or defaults as
  an option (\<open>None\<close>: the key is missing). An element of a collection is a dictionary
  or some other JSON value.
\<close>

datatype 'a elem = NotDict | Dict 'a

record task_rec =
  k_id :: "int option"
  k_name :: "string option"
  k_units :: "rat option"
  k_done :: "rat option"
  k_created :: stamp
  k_archived :: "bool option"
  k_is_today :: "bool option"

record log_rec =
  g_task_id :: "int option"
  g_start :: "stamp option"
  g_end :: stamp
  g_duration :: "int option"

record reminder_rec =
  m_id :: "int option"
  m_name :: "string option"
  m_time_hours :: "rat option"
  m_created :: stamp
  m_enabled :: "bool option"
  m_snoozed_until :: stamp
  m_sound :: "bool option"
  m_is_relative :: "bool option"
  m_next_fire_at :: stamp

text \<open>
  The top level of the document. A collection is \<open>None\<close> when its key is missing or
  does not hold a list; \<open>d_active_timer\<close> is \<open>None\<close> when the key is missing or does not
  hold a dictionary with at least one key (an empty dictionary is falsy, and every reader
  of \<^verbatim>\<open>self.active_timer\<close> treats it as no timer).
\<close>

record document =
  d_tasks :: "task_rec elem list option"
  d_time_logs :: "log_rec elem list option"
  d_reminders :: "reminder_rec elem list option"
  d_active_timer :: "timer option"
  d_next_task_id :: "int option"

text \<open>What \<^verbatim>\<open>json.load\<close> returns: a dictionary or some other JSON value.\<close>

datatype parsed = NotObject | Object document

text \<open>The state file: missing, not parseable as JSON, or holding a JSON value.\<close>

datatype state_file = NoFile | Unparseable | Parsed parsed

text \<open>
  The three validation loops of \<^verbatim>\<open>_apply_loaded_state\<close>: a dictionary with the required
  keys is kept, with its optional keys defaulted; any other element is skipped.
\<close>

fun load_tasks :: "task_rec elem list \<Rightarrow> task list" where
  "load_tasks [] = []"
| "load_tasks (NotDict # xs) = load_tasks xs"
| "load_tasks (Dict t # xs) =
     (case (k_id t, k_name t, k_units t, k_done t) of
        (Some i, Some n, Some u, Some d) \<Rightarrow>
          \<lparr>t_id = i, t_name = n, t_units = u, t_done = d, t_created = k_created t,
            t_archived = (case k_archived t of None \<Rightarrow> False | Some b \<Rightarrow> b),
            t_is_today = (case k_is_today t of None \<Rightarrow> True | Some b \<Rightarrow> b)\<rparr>
          # load_tasks xs
      | _ \<Rightarrow> load_tasks xs)"

fun load_time_logs :: "log_rec elem list \<Rightarrow> log_entry list" where
  "load_time_logs [] = []"
| "load_time_logs (NotDict # xs) = load_time_logs xs"
| "load_time_logs (Dict g # xs) =
     (case (g_task_id g, g_start g, g_duration g) of
        (Some i, Some st, Some d) \<Rightarrow>
          \<lparr>l_task_id = i, l_start = st, l_end = g_end g, l_duration = d\<rparr>
          # load_time_logs xs
      | _ \<Rightarrow> load_time_logs xs)"

fun load_reminders :: "reminder_rec elem list \<Rightarrow> reminder list" where
  "load_reminders [] = []"
| "load_reminders (NotDict # xs) = load_reminders xs"
| "load_reminders (Dict m # xs) =
     (case (m_id m, m_name m, m_time_hours m) of
        (Some i, Some n, Some h) \<Rightarrow>
          \<lparr>r_id = i, r_name = n, r_time_hours = h, r_created = m_created m,
            r_enabled = (case m_enabled m of None \<Rightarrow> True | Some b \<Rightarrow> b),
            r_snoozed_until = m_snoozed_until m,
            r_sound = (case m_sound m of None \<Rightarrow> False | Some b \<Rightarrow> b),
            r_is_relative = (case m_is_relative m of None \<Rightarrow> False | Some b \<Rightarrow> b),
            r_next_fire_at = m_next_fire_at m\<rparr>
          # load_reminders xs
      | _ \<Rightarrow> load_reminders xs)"

text \<open>
  \<^verbatim>\<open>_apply_loaded_state\<close>: the validated collections replace the state, and with at
  least one task the next task id is raised to the largest loaded id plus one.
\<close>

definition apply_loaded_state :: "parsed \<Rightarrow> state \<Rightarrow> state" where
  "apply_loaded_state data s =
     (case data of
        NotObject \<Rightarrow> s
      | Object d \<Rightarrow>
          (let s1 = s\<lparr>tasks := load_tasks (case d_tasks d of None \<Rightarrow> [] | Some xs \<Rightarrow> xs),
                      time_logs :=
                        load_time_logs (case d_time_logs d of None \<Rightarrow> [] | Some xs \<Rightarrow> xs),
                      reminders :=
                        load_reminders (case d_reminders d of None \<Rightarrow> [] | Some xs \<Rightarrow> xs),
                      active_timer := d_active_timer d,
                      next_task_id := (case d_next_task_id d of None \<Rightarrow> 1 | Some n \<Rightarrow> n)\<rparr>
           in case map t_id (tasks s1) of
                [] \<Rightarrow> s1
              | i # ids \<Rightarrow>
                  s1\<lparr>next_task_id := max (next_task_id s1) (fold max ids i + 1)\<rparr>))"

text \<open>
  \<^verbatim>\<open>load_state\<close>: without a file nothing is loaded; a file that does not parse is moved
  aside and reported.
\<close>

definition load_state :: "state_file \<Rightarrow> state \<Rightarrow> state" where
  "load_state f s =
     (case f of
        NoFile \<Rightarrow> s
      | Unparseable \<Rightarrow> s\<lparr>sent := sent s @ [Quarantined]\<rparr>
      | Parsed data \<Rightarrow> apply_loaded_state data s)"

text \<open>
  \<^verbatim>\<open>save_state\<close>: the document that is written, and that \<^verbatim>\<open>json.load\<close> reads back
  from the file.
\<close>

definition save_task :: "task \<Rightarrow> task_rec" where
  "save_task t =
     \<lparr>k_id = Some (t_id t), k_name = Some (t_name t), k_units = Some (t_units t),
      k_done = Some (t_done t), k_created = t_created t,
      k_archived = Some (t_archived t), k_is_today = Some (t_is_today t)\<rparr>"

definition save_log :: "log_entry \<Rightarrow> log_rec" where
  "save_log l =
     \<lparr>g_task_id = Some (l_task_id l), g_start = Some (l_start l), g_end = l_end l,
      g_duration = Some (l_duration l)\<rparr>"

definition save_reminder :: "reminder \<Rightarrow> reminder_rec" where
  "save_reminder r =
     \<lparr>m_id = Some (r_id r), m_name = Some (r_name r), m_time_hours = Some (r_time_hours r),
      m_created = r_created r, m_enabled = Some (r_enabled r),
      m_snoozed_until = r_snoozed_until r, m_sound = Some (r_sound r),
      m_is_relative = Some (r_is_relative r), m_next_fire_at = r_next_fire_at r\<rparr>"

definition save_state :: "state \<Rightarrow> state_file" where
  "save_state s =
     Parsed (Object
       \<lparr>d_tasks = Some (map (\<lambda>t. Dict (save_task t)) (tasks s)),
        d_time_logs = Some (map (\<lambda>l. Dict (save_log l)) (time_logs s)),
        d_reminders = Some (map (\<lambda>r. Dict (save_reminder r)) (reminders s)),
        d_active_timer = active_timer s,
        d_next_task_id = Some (next_task_id s)\<rparr>)"

text \<open>\<^verbatim>\<open>_ensure_active_task_valid\<close>: a timer whose task is missing is cleared.\<close>

definition ensure_active_task_valid :: "state \<Rightarrow> state" where
  "ensure_active_task_valid s =
     (case active_timer s of
        None \<Rightarrow> s
      | Some a \<Rightarrow>
          (if (case a_task_id a of
                 None \<Rightarrow> True
               | Some tid \<Rightarrow> \<not> list_ex (\<lambda>t. t_id t = tid) (tasks s))
           then s\<lparr>active_timer := None, is_timer_running := False,
                  sent := sent s @ [TimerCleared]\<rparr>
           else s))"

text \<open>
  The start of the program, \<^verbatim>\<open>__init__\<close>: load the state file, check the timer,
  schedule the reminders, and resume a timer that has a start time.
\<close>

definition startup :: "int \<Rightarrow> state_file \<Rightarrow> state" where
  "startup now f =
     (let s1 = load_state f init_state;
          s2 = ensure_active_task_valid s1;
          s3 = schedule_all_reminders now s2
      in case active_timer s3 of
           None \<Rightarrow> s3
         | Some a \<Rightarrow>
             (if a_start_time a \<noteq> Absent then
                start_timer_loop now (s3\<lparr>is_timer_running := True\<rparr>)
              else s3))"

text \<open>
  The commands that assign, remove and reload task ids: adding and deleting a task, and
  leaving the program after a save and starting it again on the saved file.
\<close>

datatype command =
  AddTask string rat int
  | DelTask int int
  | Progress progress_op
  | Restart int

definition step :: "command \<Rightarrow> state \<Rightarrow> state" where
  "step c s =
     (case c of
        AddTask name units now \<Rightarrow> add_task name units now s
      | DelTask now tid \<Rightarrow> (case del_task now tid s of Inr s' \<Rightarrow> s' | Inl e \<Rightarrow> s)
      | Progress p \<Rightarrow> apply_progress [p] s
      | Restart now \<Rightarrow> startup now (save_state s))"

text \<open>The ids of the tasks that a command adds to the registry.\<close>

definition added_ids :: "command \<Rightarrow> state \<Rightarrow> int list" where
  "added_ids c s =
     (case c of
        AddTask name units now \<Rightarrow> map t_id (drop (length (tasks s)) (tasks (step c s)))
      | _ \<Rightarrow> [])"

text \<open>The ids that a run of commands assigns, in order.\<close>

fun assigned :: "command list \<Rightarrow> state \<Rightarrow> int list" where
  "assigned [] s = []"
| "assigned (c # cs) s = added_ids c s @ assigned cs (step c s)"

section \<open>Notions used by the properties\<close>

text \<open>
  The entries that \<^verbatim>\<open>stop_timer\<close> appends to the time log for the session it ends
  (none when it raises), and the sum of their durations.
\<close>

definition session_logs :: "int \<Rightarrow> state \<Rightarrow> log_entry list" where
  "session_logs now s =
     (case stop_timer now s of
        Inr s' \<Rightarrow> drop (length (time_logs s)) (time_logs s')
      | Inl e \<Rightarrow> [])"

definition total_duration :: "log_entry list \<Rightarrow> int" where
  "total_duration logs = sum_list (map l_duration logs)"

text \<open>
  An entry lies within one local day: it starts before it ends, it ends no later than the
  midnight that follows its start, and its duration is positive and no longer than the
  interval.
\<close>

definition within_one_day :: "log_entry \<Rightarrow> bool" where
  "within_one_day e =
     (case (l_start e, l_end e) of
        (At a, At b) \<Rightarrow>
          a < b \<and> b \<le> combine_min (date a + 1) \<and> 0 < l_duration e \<and> l_duration e \<le> b - a
      | _ \<Rightarrow> False)"

text \<open>The invariant of a task: its done count lies between 0 and its units.\<close>

definition in_range :: "task \<Rightarrow> bool" where
  "in_range t = (0 \<le> t_done t \<and> t_done t \<le> t_units t)"

text \<open>
  What a click on a plus or minus button may change of a task: the id and the units stay,
  and a done count in range stays in range.
\<close>

definition progress_rel :: "task \<Rightarrow> task \<Rightarrow> bool" where
  "progress_rel t t' =
     (t_id t' = t_id t \<and> t_units t' = t_units t \<and> (in_range t \<longrightarrow> in_range t'))"

text \<open>Every task of the registry has an id below the next task id.\<close>

definition ids_below_next :: "state \<Rightarrow> bool" where
  "ids_below_next s = list_all (\<lambda>t. t_id t < next_task_id s) (tasks s)"

section \<open>Days and midnights\<close>

lemma day_pos: "0 < day"
  by (simp add: day_def second_def)

lemma date_combine_min: "date (combine_min d) = d"
  using day_pos by (simp add: date_def combine_min_def)

lemma next_midnight_after: "t < combine_min (date t + 1)"
proof -
  have "t = (t div day) * day + t mod day" by simp
  moreover have "t mod day < day" using day_pos by simp
  ultimately have "t < (t div day) * day + day" by linarith
  then show ?thesis by (simp add: combine_min_def date_def algebra_simps)
qed

lemma midnight_before: "combine_min (date t) \<le> t"
proof -
  have "t = (t div day) * day + t mod day" by simp
  moreover have "0 \<le> t mod day" using day_pos by simp
  ultimately have "(t div day) * day \<le> t" by linarith
  then show ?thesis by (simp add: combine_min_def date_def)
qed

lemma next_midnight_le_end:
  assumes "date c < date e"
  shows "combine_min (date c + 1) \<le> e"
proof -
  from assms have "date c + 1 \<le> date e" by simp
  then have "(date c + 1) * day \<le> date e * day"
    using day_pos by (simp add: mult_right_mono)
  also have "\<dots> \<le> e" using midnight_before [of e] by (simp add: combine_min_def)
  finally show ?thesis by (simp add: combine_min_def)
qed

lemma date_mono: "a \<le> b \<Longrightarrow> date a \<le> date b"
  using day_pos by (simp add: date_def zdiv_mono1)

lemma date_offset:
  assumes "0 \<le> k" and "k < day"
  shows "date (combine_min d + k) = d"
proof -
  have "(d * day + k) div day = d + k div day"
    using day_pos by simp
  moreover have "k div day = 0" using assms by simp
  ultimately show ?thesis by (simp add: date_def combine_min_def)
qed

section \<open>The splitting loop\<close>

text \<open>
  Started at or before the end, the loop appends entries that each lie within one day
  and together cover the time from the start to where it stops; it stops on the day of
  the end, and what remains has shrunk by the time covered.
\<close>

lemma split_days_spec:
  "c \<le> e \<Longrightarrow> split_days tid e c r logs = (logs', r', c') \<Longrightarrow>
     (\<exists>new. logs' = logs @ new \<and> (\<forall>x \<in> set new. within_one_day x \<and> l_task_id x = tid)
          \<and> total_duration new = c' - c)
     \<and> r' = r - (c' - c) \<and> c \<le> c' \<and> c' \<le> e \<and> date c' = date e"
proof (induction tid e c r logs arbitrary: logs' r' c' rule: split_days.induct)
  case (1 tid end_dt cur_start remaining logs)
  let ?day_end = "combine_min (date cur_start + 1)"
  let ?entry = "\<lparr>l_task_id = tid, l_start = At cur_start, l_end = At ?day_end,
                  l_duration = ?day_end - cur_start\<rparr>"
  show ?case
  proof (cases "date cur_start < date end_dt")
    case True
    have le: "?day_end \<le> end_dt" using True by (rule next_midnight_le_end)
    have lt: "cur_start < ?day_end" by (rule next_midnight_after)
    have rec: "split_days tid end_dt ?day_end (remaining - (?day_end - cur_start))
                 (logs @ [?entry]) = (logs', r', c')"
      using "1.prems"(2) True by (subst (asm) split_days.simps) (simp add: Let_def)
    from "1.IH" [OF True refl refl le rec]
    obtain new where new: "logs' = (logs @ [?entry]) @ new"
        "\<forall>x \<in> set new. within_one_day x \<and> l_task_id x = tid"
        "total_duration new = c' - ?day_end"
      and rest: "r' = remaining - (?day_end - cur_start) - (c' - ?day_end)"
        "?day_end \<le> c'" "c' \<le> end_dt" "date c' = date end_dt"
      by blast
    have entry: "within_one_day ?entry" using lt by (simp add: within_one_day_def)
    have "logs' = logs @ (?entry # new)" using new(1) by simp
    moreover have "\<forall>x \<in> set (?entry # new). within_one_day x \<and> l_task_id x = tid"
      using new(2) entry by simp
    moreover have "total_duration (?entry # new) = c' - cur_start"
      using new(3) by (simp add: total_duration_def)
    ultimately have "\<exists>new. logs' = logs @ new
        \<and> (\<forall>x \<in> set new. within_one_day x \<and> l_task_id x = tid)
        \<and> total_duration new = c' - cur_start"
      by blast
    then show ?thesis using rest lt by simp
  next
    case False
    have res: "logs' = logs" "r' = remaining" "c' = cur_start"
      using "1.prems"(2) False by (subst (asm) split_days.simps, simp)+
    have "date cur_start = date end_dt"
      using False date_mono [OF "1.prems"(1)] by simp
    then show ?thesis using res "1.prems"(1) by (simp add: total_duration_def)
  qed
qed

lemma split_days_same_day:
  "date c = date e \<Longrightarrow> split_days tid e c r logs = (logs, r, c)"
  by (subst split_days.simps) simp

lemma split_days_next:
  "date c < date e \<Longrightarrow>
     split_days tid e c r logs =
       split_days tid e (combine_min (date c + 1)) (r - (combine_min (date c + 1) - c))
         (logs @ [\<lparr>l_task_id = tid, l_start = At c, l_end = At (combine_min (date c + 1)),
                   l_duration = combine_min (date c + 1) - c\<rparr>])"
  by (subst split_days.simps) (simp add: Let_def)

text \<open>Stopping a timer that runs since \<open>st\<close> with nothing stored, after more than a second.\<close>

lemma stop_timer_running:
  assumes "active_timer s = Some a" and "a_start_time a = At st" and "a_elapsed a = Some 0"
    and "a_task_id a = Some tid" and "st + second < now"
  shows "stop_timer now s =
     (case split_days tid now st (min (now - st) max_session_sec) (time_logs s) of
        (logs, remaining, cur_start) \<Rightarrow>
          Inr (s\<lparr>time_logs :=
                   (if remaining > 0 then
                      logs @ [\<lparr>l_task_id = tid, l_start = At cur_start, l_end = At now,
                                l_duration = remaining\<rparr>]
                    else logs),
                 active_timer := None, is_timer_running := False\<rparr>))"
proof -
  have "second < max_session_sec" by (simp add: max_session_sec_def second_def)
  moreover have "max 0 (now - st) = now - st" using assms(5) by (simp add: second_def)
  moreover have "0 \<le> min (now - st) max_session_sec"
    using assms(5) by (simp add: second_def max_session_sec_def)
  ultimately show ?thesis
    using assms
    by (cases "split_days tid now st (min (now - st) max_session_sec) (time_logs s)")
      (simp add: stop_timer_def Let_def max_def)
qed

text \<open>Every entry that \<^verbatim>\<open>stop_timer\<close> appends lies within one day.\<close>

lemma session_logs_single_day:
  assumes "e \<in> set (session_logs now s)"
  shows "within_one_day e"
proof (cases "active_timer s")
  case None
  then show ?thesis using assms by (simp add: session_logs_def stop_timer_def)
next
  case (Some a)
  define elapsed0 where "elapsed0 = max 0 (case a_elapsed a of None \<Rightarrow> 0 | Some e \<Rightarrow> e)"
  define elapsed1 where "elapsed1 = (case a_start_time a of
      At st \<Rightarrow> elapsed0 + max 0 (now - st) | _ \<Rightarrow> elapsed0)"
  define start_dt where "start_dt = (case a_start_time a of
      At st \<Rightarrow> st | _ \<Rightarrow> now - elapsed1)"
  define end_dt where "end_dt = start_dt + max 0 elapsed1"
  define elapsed where "elapsed = min elapsed1 max_session_sec"
  have le: "start_dt \<le> end_dt" by (simp add: end_dt_def)
  have st_eq: "stop_timer now s =
      (if elapsed > 1 * second then
         (case a_task_id a of
            None \<Rightarrow> Inl KeyError
          | Some tid \<Rightarrow>
              (case split_days tid end_dt start_dt (max 0 elapsed) (time_logs s) of
                 (logs, remaining, cur_start) \<Rightarrow>
                   Inr (s\<lparr>time_logs :=
                            (if remaining > 0 then
                               logs @ [\<lparr>l_task_id = tid, l_start = At cur_start,
                                         l_end = At end_dt, l_duration = remaining\<rparr>]
                             else logs),
                          active_timer := None, is_timer_running := False\<rparr>)))
       else Inr (s\<lparr>active_timer := None, is_timer_running := False\<rparr>))"
    by (simp only: stop_timer_def Some option.case Let_def elapsed_def elapsed1_def
        elapsed0_def start_dt_def end_dt_def)
  show ?thesis
  proof (cases "elapsed > 1 * second")
    case False
    then show ?thesis using assms st_eq by (simp add: session_logs_def)
  next
    case True
    show ?thesis
    proof (cases "a_task_id a")
      case None
      then show ?thesis using assms st_eq True by (simp add: session_logs_def)
    next
      case (Some tid)
      obtain logs remaining cur_start where
        sp: "split_days tid end_dt start_dt (max 0 elapsed) (time_logs s)
               = (logs, remaining, cur_start)"
        by (cases "split_days tid end_dt start_dt (max 0 elapsed) (time_logs s)") auto
      from split_days_spec [OF le sp]
      obtain new where new: "logs = time_logs s @ new"
          "\<forall>x \<in> set new. within_one_day x \<and> l_task_id x = tid"
        and rem: "remaining = max 0 elapsed - (cur_start - start_dt)"
        and bounds: "start_dt \<le> cur_start" "cur_start \<le> end_dt"
          "date cur_start = date end_dt"
        by blast
      let ?final = "\<lparr>l_task_id = tid, l_start = At cur_start, l_end = At end_dt,
                      l_duration = remaining\<rparr>"
      have sl: "session_logs now s = (if remaining > 0 then new @ [?final] else new)"
        using st_eq True Some sp new(1) by (simp add: session_logs_def)
      have fin: "within_one_day ?final" if pos: "remaining > 0"
      proof -
        have "max 0 elapsed \<le> max 0 elapsed1" by (simp add: elapsed_def)
        then have r_le: "remaining \<le> end_dt - cur_start"
          using rem by (simp add: end_dt_def)
        then have "cur_start < end_dt" using pos by simp
        moreover have "end_dt \<le> combine_min (date cur_start + 1)"
          using next_midnight_after [of end_dt] bounds(3) by simp
        ultimately show ?thesis using pos r_le by (simp add: within_one_day_def)
      qed
      show ?thesis
        using assms sl new(2) fin by (auto split: if_splits)
    qed
  qed
qed

text \<open>A session from ten minutes before a midnight to ten minutes after it.\<close>

lemma session_across_midnight:
  fixes d tid :: int and s :: state
  defines "st \<equiv> combine_min d + (23 * hour + 50 * minute)"
    and "mid \<equiv> combine_min (d + 1)"
  defines "s0 \<equiv> s\<lparr>active_timer :=
        Some \<lparr>a_task_id = Some tid, a_start_time = At st, a_elapsed = Some 0\<rparr>\<rparr>"
  shows "session_logs (mid + 10 * minute) s0
   = [\<lparr>l_task_id = tid, l_start = At st, l_end = At mid, l_duration = 10 * minute\<rparr>,
      \<lparr>l_task_id = tid, l_start = At mid, l_end = At (mid + 10 * minute),
        l_duration = 10 * minute\<rparr>]"
proof -
  have d1: "date st = d"
    unfolding st_def by (rule date_offset) (simp_all add: hour_def minute_def day_def second_def)
  have d2: "date (mid + 10 * minute) = d + 1"
    unfolding mid_def by (rule date_offset) (simp_all add: hour_def minute_def day_def second_def)
  have d3: "date mid = d + 1" unfolding mid_def by (rule date_combine_min)
  have gap: "mid - st = 10 * minute"
    by (simp add: mid_def st_def combine_min_def hour_def minute_def day_def second_def
        algebra_simps)
  have el: "min (mid + 10 * minute - st) max_session_sec = 20 * minute"
    using gap by (simp add: minute_def second_def max_session_sec_def)
  have run: "st + second < mid + 10 * minute"
    using gap by (simp add: minute_def second_def)
  have sp: "split_days tid (mid + 10 * minute) st (20 * minute) (time_logs s0) =
      (time_logs s0 @ [\<lparr>l_task_id = tid, l_start = At st, l_end = At mid,
                         l_duration = 10 * minute\<rparr>], 10 * minute, mid)"
  proof -
    have "date st < date (mid + 10 * minute)" using d1 d2 by simp
    from split_days_next [OF this] show ?thesis
      using d1 d2 d3 gap by (simp add: split_days_same_day mid_def)
  qed
  have "stop_timer (mid + 10 * minute) s0 =
      Inr (s0\<lparr>time_logs := time_logs s0 @
            [\<lparr>l_task_id = tid, l_start = At st, l_end = At mid, l_duration = 10 * minute\<rparr>,
             \<lparr>l_task_id = tid, l_start = At mid, l_end = At (mid + 10 * minute),
               l_duration = 10 * minute\<rparr>],
          active_timer := None, is_timer_running := False\<rparr>)"
    using stop_timer_running [of s0 "\<lparr>a_task_id = Some tid, a_start_time = At st,
        a_elapsed = Some 0\<rparr>" st tid "mid + 10 * minute", OF _ _ _ _ run]
    by (simp add: el sp) (simp add: s0_def minute_def second_def)
  then show ?thesis by (simp add: session_logs_def)
qed

section \<open>Sessions and the time log\<close>

text \<open>
  Claim C1: the durations that one \<^verbatim>\<open>stop_timer\<close> logs for a session sum to at most
  57600 seconds. The source clamps the elapsed time to \<open>max_session_sec\<close>, but the end of
  the session is computed before the clamp and every segment up to a midnight is logged
  with its full length. A timer started at 07:00 and stopped at 01:00 of the next day (18
  hours) is logged as one entry from 07:00 to midnight of 61200 seconds, which is more
  than the cap; what remains is then negative and no further entry is written.
\<close>

theorem stop_timer_logs_more_than_the_cap:
  "session_logs (day + 1 * hour)
     ((add_task ''essay'' 4 (6 * hour) init_state)\<lparr>active_timer :=
        Some \<lparr>a_task_id = Some 1, a_start_time = At (7 * hour), a_elapsed = Some 0\<rparr>,
        is_timer_running := True\<rparr>)
   = [\<lparr>l_task_id = 1, l_start = At (7 * hour), l_end = At day, l_duration = 17 * hour\<rparr>]
   \<and> total_duration (session_logs (day + 1 * hour)
     ((add_task ''essay'' 4 (6 * hour) init_state)\<lparr>active_timer :=
        Some \<lparr>a_task_id = Some 1, a_start_time = At (7 * hour), a_elapsed = Some 0\<rparr>,
        is_timer_running := True\<rparr>)) = 61200 * second
   \<and> max_session_sec = 57600 * second
   \<and> \<not> total_duration (session_logs (day + 1 * hour)
     ((add_task ''essay'' 4 (6 * hour) init_state)\<lparr>active_timer :=
        Some \<lparr>a_task_id = Some 1, a_start_time = At (7 * hour), a_elapsed = Some 0\<rparr>,
        is_timer_running := True\<rparr>)) \<le> max_session_sec"
  by (simp add: session_logs_def total_duration_def stop_timer_def init_state_def add_task_def
      split_days.simps date_def combine_min_def day_def hour_def second_def
      max_session_sec_def Let_def)

text \<open>
  Claim C2: a session from 23:50:00 of a day \<open>d\<close> to 00:10:00 of the next day is logged
  as exactly two entries, the first ending and the second starting at the midnight between
  them, with durations that sum to 1200 seconds; and every entry that any
  \<^verbatim>\<open>stop_timer\<close> appends lies within one local day.
\<close>

theorem stop_timer_splits_at_midnight:
  "session_logs (combine_min (d + 1) + 10 * minute)
     (s\<lparr>active_timer :=
        Some \<lparr>a_task_id = Some tid,
              a_start_time = At (combine_min d + (23 * hour + 50 * minute)),
              a_elapsed = Some 0\<rparr>\<rparr>)
   = [\<lparr>l_task_id = tid, l_start = At (combine_min d + (23 * hour + 50 * minute)),
        l_end = At (combine_min (d + 1)), l_duration = 10 * minute\<rparr>,
      \<lparr>l_task_id = tid, l_start = At (combine_min (d + 1)),
        l_end = At (combine_min (d + 1) + 10 * minute), l_duration = 10 * minute\<rparr>]
   \<and> total_duration (session_logs (combine_min (d + 1) + 10 * minute)
     (s\<lparr>active_timer :=
        Some \<lparr>a_task_id = Some tid,
              a_start_time = At (combine_min d + (23 * hour + 50 * minute)),
              a_elapsed = Some 0\<rparr>\<rparr>)) = 1200 * second
   \<and> (\<forall>e \<in> set (session_logs now s'). within_one_day e)"
proof -
  have "\<forall>e \<in> set (session_logs now s'). within_one_day e"
    using session_logs_single_day by blast
  moreover note logs = session_across_midnight [of d tid s]
  moreover have "total_duration (session_logs (combine_min (d + 1) + 10 * minute)
     (s\<lparr>active_timer :=
        Some \<lparr>a_task_id = Some tid,
              a_start_time = At (combine_min d + (23 * hour + 50 * minute)),
              a_elapsed = Some 0\<rparr>\<rparr>)) = 1200 * second"
    by (simp only: logs) (simp add: total_duration_def minute_def)
  ultimately show ?thesis by (simp only: simp_thms)
qed

theorem stop_timer_splits_at_midnight_witness:
  "session_logs (combine_min 1 + 10 * minute)
     (init_state\<lparr>active_timer :=
        Some \<lparr>a_task_id = Some 1,
              a_start_time = At (combine_min 0 + (23 * hour + 50 * minute)),
              a_elapsed = Some 0\<rparr>\<rparr>)
   = [\<lparr>l_task_id = 1, l_start = At (combine_min 0 + (23 * hour + 50 * minute)),
        l_end = At (combine_min 1), l_duration = 10 * minute\<rparr>,
      \<lparr>l_task_id = 1, l_start = At (combine_min 1),
        l_end = At (combine_min 1 + 10 * minute), l_duration = 10 * minute\<rparr>]
   \<and> within_one_day \<lparr>l_task_id = 1, l_start = At (combine_min 0 + (23 * hour + 50 * minute)),
        l_end = At (combine_min 1), l_duration = 10 * minute\<rparr>
   \<and> within_one_day \<lparr>l_task_id = 1, l_start = At (combine_min 1),
        l_end = At (combine_min 1 + 10 * minute), l_duration = 10 * minute\<rparr>"
  using stop_timer_splits_at_midnight [where d = 0 and s = init_state and tid = 1
      and now = "combine_min 1 + 10 * minute" and s' =
      "init_state\<lparr>active_timer :=
        Some \<lparr>a_task_id = Some 1,
              a_start_time = At (combine_min 0 + (23 * hour + 50 * minute)),
              a_elapsed = Some 0\<rparr>\<rparr>"]
  by simp

section \<open>Idle gaps\<close>

text \<open>
  Claim C3: when a tick of a running timer sees a gap of more than 3600 seconds since the
  previous tick (7200 seconds, say), the elapsed time it shows exceeds the one shown by the
  previous tick by at most 3600 seconds, and it moves the start of the timer forward to
  3600 seconds before now, so that later ticks count on from the capped value. The timer
  is one whose start is not later than its ticks, as it is when \<^verbatim>\<open>start_timer\<close> or the
  restart of the program has set both.
\<close>

theorem tick_credits_at_most_the_cap:
  assumes "active_timer s = Some a" and "a_start_time a = At st"
    and "last_tick_time s = Some t0" and "st \<le> t0" and "t0 \<le> t1"
    and "t2 - t1 > 3600 * second"
  shows "\<exists>s1 e1 s2 e2 a2.
      tick t1 s = (s1, Some e1) \<and> tick t2 s1 = (s2, Some e2)
      \<and> e2 - e1 \<le> 3600 * second
      \<and> active_timer s2 = Some a2
      \<and> a_start_time a2 = At (t2 - 3600 * second)
      \<and> a_elapsed a2 = a_elapsed a
      \<and> st < t2 - 3600 * second
      \<and> (\<forall>d. 0 \<le> d \<and> d \<le> 3600 * second \<longrightarrow> snd (tick (t2 + d) s2) = Some (e2 + d))"
proof -
  define stored where "stored = (case a_elapsed a of None \<Rightarrow> 0 | Some e \<Rightarrow> e)"
  obtain s1 r1 where t1: "tick t1 s = (s1, r1)" by (cases "tick t1 s") auto
  obtain a1 st1 where s1: "active_timer s1 = Some a1" "a_start_time a1 = At st1"
      "a_elapsed a1 = a_elapsed a" "last_tick_time s1 = Some t1" "st \<le> st1" "st1 \<le> t1"
      and r1: "r1 = Some (stored + (t1 - st1))"
    using t1 assms(1-5)
    by (auto simp: tick_def Let_def stored_def idle_cap_def second_def
        split: option.splits if_splits)
  obtain s2 r2 where t2: "tick t2 s1 = (s2, r2)" by (cases "tick t2 s1") auto
  have gap: "t2 - t1 > idle_cap" using assms(6) by (simp add: idle_cap_def)
  have r2: "r2 = Some (stored + idle_cap)"
    and s2: "s2 = s1\<lparr>active_timer := Some (a1\<lparr>a_start_time := At (t2 - idle_cap)\<rparr>),
                    last_tick_time := Some t2,
                    sent := sent s1 @ [GapTrimmed ((t2 - t1) div minute)]\<rparr>"
    using t2 s1 gap by (auto simp: tick_def Let_def stored_def)
  have later: "snd (tick (t2 + d) s2) = Some (stored + idle_cap + d)"
    if "0 \<le> d" "d \<le> 3600 * second" for d
    using that s1 by (simp add: s2 tick_def Let_def stored_def idle_cap_def)
  show ?thesis
    using t1 t2 r1 r2 s1 s2 later assms(4,5,6)
    by (auto simp: idle_cap_def second_def)
qed

theorem tick_credits_at_most_the_cap_witness:
  "\<exists>s1 e1 s2 e2 a2.
      tick (100 * second)
        (init_state\<lparr>active_timer := Some \<lparr>a_task_id = Some 1, a_start_time = At 0,
           a_elapsed = Some 0\<rparr>, last_tick_time := Some (99 * second)\<rparr>) = (s1, Some e1)
      \<and> tick (7300 * second) s1 = (s2, Some e2)
      \<and> e1 = 100 * second \<and> e2 = 3600 * second
      \<and> e2 - e1 \<le> 3600 * second
      \<and> active_timer s2 = Some a2
      \<and> a_start_time a2 = At (3700 * second)
      \<and> snd (tick (7301 * second) s2) = Some (3601 * second)"
proof -
  let ?a = "\<lparr>a_task_id = Some 1, a_start_time = At 0, a_elapsed = Some 0\<rparr>"
  let ?s = "init_state\<lparr>active_timer := Some ?a, last_tick_time := Some (99 * second)\<rparr>"
  from tick_credits_at_most_the_cap [of ?s ?a 0 "99 * second" "100 * second" "7300 * second"]
  obtain s1 e1 s2 e2 a2 where w: "tick (100 * second) ?s = (s1, Some e1)"
      "tick (7300 * second) s1 = (s2, Some e2)" "e2 - e1 \<le> 3600 * second"
      "active_timer s2 = Some a2" "a_start_time a2 = At (7300 * second - 3600 * second)"
      "\<forall>d. 0 \<le> d \<and> d \<le> 3600 * second \<longrightarrow> snd (tick (7300 * second + d) s2) = Some (e2 + d)"
    by (auto simp: second_def)
  have e1: "e1 = 100 * second" and s1: "s1 = ?s\<lparr>last_tick_time := Some (100 * second)\<rparr>"
    using w(1) by (auto simp: tick_def Let_def idle_cap_def second_def)
  have e2: "e2 = 3600 * second"
    using w(2) by (auto simp: s1 tick_def Let_def idle_cap_def second_def)
  have "0 \<le> 1 * second \<and> 1 * second \<le> 3600 * second" by (simp add: second_def)
  with w(6) have "snd (tick (7300 * second + 1 * second) s2) = Some (e2 + 1 * second)"
    by blast
  then have "snd (tick (7301 * second) s2) = Some (3601 * second)"
    by (simp add: e2 second_def)
  then show ?thesis
    using w e1 e2 by (auto simp: second_def)
qed

section \<open>Task progress\<close>

lemma progress_rel_refl: "progress_rel t t"
  by (simp add: progress_rel_def)

lemma progress_rel_trans: "progress_rel a b \<Longrightarrow> progress_rel b c \<Longrightarrow> progress_rel a c"
  by (simp add: progress_rel_def)

lemma inc_loop_rel: "list_all2 progress_rel ts (fst (inc_loop tid ts))"
proof (induction ts)
  case Nil
  show ?case by simp
next
  case (Cons t ts)
  show ?case
  proof (cases "t_id t = tid")
    case True
    have "progress_rel t (t\<lparr>t_done := min (t_done t + 1) (t_units t)\<rparr>)"
      by (auto simp: progress_rel_def in_range_def)
    then show ?thesis
      using True by (auto simp: Let_def min_def list_all2_refl progress_rel_refl)
  next
    case False
    then show ?thesis
      using Cons.IH by (cases "inc_loop tid ts") (simp add: progress_rel_refl)
  qed
qed

lemma dec_loop_rel: "list_all2 progress_rel ts (dec_loop tid ts)"
proof (induction ts)
  case Nil
  show ?case by simp
next
  case (Cons t ts)
  have "progress_rel t (t\<lparr>t_done := max (t_done t - 1) 0\<rparr>)"
    by (auto simp: progress_rel_def in_range_def)
  then show ?case
    using Cons.IH by (simp add: list_all2_refl progress_rel_refl)
qed

lemma inc_task_tasks: "tasks (inc_task tid s) = fst (inc_loop tid (tasks s))"
  by (simp add: inc_task_def split: prod.splits option.splits)

lemma inc_task_next: "next_task_id (inc_task tid s) = next_task_id s"
  by (simp add: inc_task_def split: prod.splits option.splits)

lemma apply_progress_rel: "list_all2 progress_rel (tasks s) (tasks (apply_progress ops s))"
proof (induction ops arbitrary: s)
  case Nil
  show ?case by (simp add: list_all2_refl progress_rel_refl)
next
  case (Cons p ops)
  show ?case
  proof (cases p)
    case (Inc tid)
    have "list_all2 progress_rel (tasks s) (tasks (inc_task tid s))"
      by (simp add: inc_task_tasks inc_loop_rel)
    from list_all2_trans [OF _ this Cons.IH [of "inc_task tid s"]] show ?thesis
      using Inc progress_rel_trans by auto
  next
    case (Dec tid)
    have "list_all2 progress_rel (tasks s) (tasks (dec_task tid s))"
      by (simp add: dec_task_def dec_loop_rel)
    from list_all2_trans [OF _ this Cons.IH [of "dec_task tid s"]] show ?thesis
      using Dec progress_rel_trans by auto
  qed
qed

text \<open>
  Claim C4: a task whose done count lies between 0 and its units keeps it there through
  every sequence of \<^verbatim>\<open>inc_task\<close> and \<^verbatim>\<open>dec_task\<close> calls, on its id or on any other; the
  calls neither add nor remove a task nor change an id or the units.
\<close>

theorem done_stays_in_range:
  assumes "i < length (tasks s)" and "in_range (tasks s ! i)"
  shows "length (tasks (apply_progress ops s)) = length (tasks s)
     \<and> t_id (tasks (apply_progress ops s) ! i) = t_id (tasks s ! i)
     \<and> t_units (tasks (apply_progress ops s) ! i) = t_units (tasks s ! i)
     \<and> 0 \<le> t_done (tasks (apply_progress ops s) ! i)
     \<and> t_done (tasks (apply_progress ops s) ! i) \<le> t_units (tasks s ! i)"
proof -
  have rel: "list_all2 progress_rel (tasks s) (tasks (apply_progress ops s))"
    by (rule apply_progress_rel)
  then have len: "length (tasks (apply_progress ops s)) = length (tasks s)"
    by (simp add: list_all2_lengthD)
  have "progress_rel (tasks s ! i) (tasks (apply_progress ops s) ! i)"
    using rel assms(1) by (rule list_all2_nthD)
  then show ?thesis
    using len assms(2) by (simp add: progress_rel_def in_range_def)
qed

theorem done_stays_in_range_witness:
  "tasks (apply_progress [Dec 1, Inc 1, Inc 1, Inc 1, Inc 2]
      (add_task ''read'' (5 / 2) 0 init_state))
     = [\<lparr>t_id = 1, t_name = ''read'', t_units = 5 / 2, t_done = 5 / 2, t_created = At 0,
         t_archived = False, t_is_today = True\<rparr>]
   \<and> 0 \<le> t_done (tasks (apply_progress [Dec 1, Inc 1, Inc 1, Inc 1, Inc 2]
      (add_task ''read'' (5 / 2) 0 init_state)) ! 0)
   \<and> t_done (tasks (apply_progress [Dec 1, Inc 1, Inc 1, Inc 1, Inc 2]
      (add_task ''read'' (5 / 2) 0 init_state)) ! 0) \<le> 5 / 2"
  using done_stays_in_range [of 0 "add_task ''read'' (5 / 2) 0 init_state"
      "[Dec 1, Inc 1, Inc 1, Inc 1, Inc 2]"]
  by (simp add: add_task_def init_state_def in_range_def inc_task_def dec_task_def Let_def)

text \<open>
  Claim C5 as stated, that the completed notification is sent once only, fails: a task of
  one unit is completed by the first click on its plus button, and the second click sends
  the notification again.
\<close>

theorem inc_task_notifies_again:
  "t_done (hd (tasks (inc_task 1 (add_task ''read'' 1 0 init_state)))) = 1
   \<and> t_units (hd (tasks (inc_task 1 (add_task ''read'' 1 0 init_state)))) = 1
   \<and> sent (inc_task 1 (add_task ''read'' 1 0 init_state)) = [TaskComplete ''read'']
   \<and> sent (inc_task 1 (inc_task 1 (add_task ''read'' 1 0 init_state)))
       = [TaskComplete ''read'', TaskComplete ''read'']"
  by (simp add: add_task_def init_state_def inc_task_def Let_def)

lemma inc_loop_find:
  "snd (inc_loop tid ts) =
     (case find (\<lambda>t. t_id t = tid) ts of
        None \<Rightarrow> (None, False)
      | Some t \<Rightarrow> if t_units t \<le> t_done t + 1 then (Some (t_name t), True) else (None, False))"
  by (induction ts) (auto simp: Let_def split: prod.splits)

text \<open>
  Claim C5, amended: \<^verbatim>\<open>inc_task\<close> sends the completed notification whenever the task it
  increments (the first with the id) ends with its done count at its units, that is
  whenever the count plus one reaches the units, and the task has a name. So the
  increment that first raises the count to the units sends it, and every later
  \<^verbatim>\<open>inc_task\<close> on the completed task sends it again.
\<close>

theorem inc_task_notifies_whenever_target_met:
  "sent (inc_task tid s) =
     sent s @
       (case find (\<lambda>t. t_id t = tid) (tasks s) of
          None \<Rightarrow> []
        | Some t \<Rightarrow>
            if t_units t \<le> t_done t + 1 \<and> t_name t \<noteq> [] then [TaskComplete (t_name t)]
            else [])"
  using inc_loop_find [of tid "tasks s"]
  by (cases "inc_loop tid (tasks s)") (auto simp: inc_task_def split: option.splits if_splits)

theorem inc_task_notifies_whenever_target_met_witness:
  "sent (inc_task 7
      (init_state\<lparr>tasks := [\<lparr>t_id = 7, t_name = ''run'', t_units = 3, t_done = 3,
         t_created = Absent, t_archived = False, t_is_today = True\<rparr>]\<rparr>))
    = [TaskComplete ''run'']
   \<and> sent (inc_task 7
      (init_state\<lparr>tasks := [\<lparr>t_id = 7, t_name = ''run'', t_units = 3, t_done = 1,
         t_created = Absent, t_archived = False, t_is_today = True\<rparr>]\<rparr>))
    = []"
  using inc_task_notifies_whenever_target_met [of 7
      "init_state\<lparr>tasks := [\<lparr>t_id = 7, t_name = ''run'', t_units = 3, t_done = 3,
         t_created = Absent, t_archived = False, t_is_today = True\<rparr>]\<rparr>"]
    inc_task_notifies_whenever_target_met [of 7
      "init_state\<lparr>tasks := [\<lparr>t_id = 7, t_name = ''run'', t_units = 3, t_done = 1,
         t_created = Absent, t_archived = False, t_is_today = True\<rparr>]\<rparr>"]
  by (simp add: init_state_def)

section \<open>Saving and loading\<close>

lemma load_save_tasks: "load_tasks (map (\<lambda>t. Dict (save_task t)) ts) = ts"
  by (induction ts) (simp_all add: save_task_def)

lemma load_save_time_logs: "load_time_logs (map (\<lambda>l. Dict (save_log l)) ls) = ls"
  by (induction ls) (simp_all add: save_log_def)

lemma load_save_reminders: "load_reminders (map (\<lambda>r. Dict (save_reminder r)) rs) = rs"
  by (induction rs) (simp_all add: save_reminder_def)

lemma tick_frame:
  "tasks (fst (tick now s)) = tasks s \<and> reminders (fst (tick now s)) = reminders s
     \<and> next_task_id (fst (tick now s)) = next_task_id s
     \<and> time_logs (fst (tick now s)) = time_logs s"
  by (simp add: tick_def Let_def split: option.splits)

text \<open>Loading what was saved gives the collections back and does not lower the next id.\<close>

lemma load_saved:
  "tasks (load_state (save_state s) s0) = tasks s
   \<and> reminders (load_state (save_state s) s0) = reminders s
   \<and> time_logs (load_state (save_state s) s0) = time_logs s
   \<and> next_task_id s \<le> next_task_id (load_state (save_state s) s0)"
  by (simp add: load_state_def save_state_def apply_loaded_state_def Let_def
      load_save_tasks load_save_reminders load_save_time_logs split: list.splits)

lemma startup_frame:
  "tasks (startup now f) = tasks (load_state f init_state)
   \<and> next_task_id (startup now f) = next_task_id (load_state f init_state)
   \<and> reminders (startup now f) =
       map (\<lambda>r. fst (schedule_reminder now r)) (reminders (load_state f init_state))"
  by (simp add: startup_def Let_def schedule_all_reminders_def ensure_active_task_valid_def
      start_timer_loop_def tick_frame split: option.splits)

lemma load_tasks_append: "load_tasks (xs @ ys) = load_tasks xs @ load_tasks ys"
proof (induction xs)
  case Nil
  show ?case by simp
next
  case (Cons x xs)
  then show ?case
    by (cases x) (simp_all split: option.splits)
qed

lemma apply_loaded_state_collections:
  "time_logs (apply_loaded_state (Object d) s)
      = load_time_logs (case d_time_logs d of None \<Rightarrow> [] | Some xs \<Rightarrow> xs)
   \<and> reminders (apply_loaded_state (Object d) s)
      = load_reminders (case d_reminders d of None \<Rightarrow> [] | Some xs \<Rightarrow> xs)
   \<and> active_timer (apply_loaded_state (Object d) s) = d_active_timer d
   \<and> tasks (apply_loaded_state (Object d) s)
      = load_tasks (case d_tasks d of None \<Rightarrow> [] | Some xs \<Rightarrow> xs)"
  by (simp add: apply_loaded_state_def Let_def split: list.splits)

section \<open>Reminders\<close>

lemma quarter_hour: "timedelta_hours (1 / 4) = 15 * minute"
  by (simp add: timedelta_hours_def round_half_even_def hour_def minute_def second_def Let_def)

text \<open>
  Claim C6: a relative reminder of a quarter of an hour, added when the clock reads \<open>T\<close>,
  is stored with \<^verbatim>\<open>next_fire_at\<close> at \<open>T\<close> plus 15 minutes; scheduling it again at any
  time before that moment, directly or at the start of the program on the saved state,
  leaves \<^verbatim>\<open>next_fire_at\<close> at that moment. \<open>T\<close> is the reading that
  \<^verbatim>\<open>schedule_reminder\<close> takes inside \<^verbatim>\<open>add_reminder\<close>.
\<close>

theorem relative_reminder_keeps_its_fire_time:
  assumes "name \<noteq> []" and "T' < T + 15 * minute"
  shows "length (reminders (add_reminder name (1 / 4) True created T s))
       = length (reminders s) + 1
     \<and> r_next_fire_at (last (reminders (add_reminder name (1 / 4) True created T s)))
       = At (T + 15 * minute)
     \<and> r_next_fire_at (fst (schedule_reminder T'
          (last (reminders (add_reminder name (1 / 4) True created T s)))))
       = At (T + 15 * minute)
     \<and> r_next_fire_at
          (last (reminders (startup T' (save_state (add_reminder name (1 / 4) True created T s)))))
       = At (T + 15 * minute)"
proof -
  define r where "r = fst (schedule_reminder T
      \<lparr>r_id = max_default (map r_id (reminders s)) 0 + 1, r_name = name,
        r_time_hours = 1 / 4, r_created = At created, r_enabled = True,
        r_snoozed_until = Absent, r_sound = False, r_is_relative = True,
        r_next_fire_at = Absent\<rparr>)"
  have added: "reminders (add_reminder name (1 / 4) True created T s) = reminders s @ [r]"
    using assms(1) by (simp add: add_reminder_def r_def Let_def)
  have r: "r_next_fire_at r = At (T + 15 * minute)" "r_enabled r" "r_snoozed_until r = Absent"
    by (simp_all add: r_def schedule_reminder_def Let_def quarter_hour)
  have again: "r_next_fire_at (fst (schedule_reminder T' r)) = At (T + 15 * minute)"
    using r assms(2) by (simp add: schedule_reminder_def Let_def)
  have "last (reminders (startup T' (save_state (add_reminder name (1 / 4) True created T s))))
      = fst (schedule_reminder T' r)"
    by (simp add: startup_frame load_saved added last_map)
  then show ?thesis using added r(1) again by simp
qed

theorem relative_reminder_keeps_its_fire_time_witness:
  "map r_next_fire_at (reminders (add_reminder ''tea'' (1 / 4) True 0 (1 * second) init_state))
       = [At (1 * second + 15 * minute)]
   \<and> r_next_fire_at
        (last (reminders (startup (10 * minute)
          (save_state (add_reminder ''tea'' (1 / 4) True 0 (1 * second) init_state)))))
       = At (1 * second + 15 * minute)"
proof -
  have "reminders (add_reminder ''tea'' (1 / 4) True 0 (1 * second) init_state) \<noteq> []"
    by (simp add: add_reminder_def Let_def)
  moreover have "10 * minute < 1 * second + 15 * minute"
    by (simp add: minute_def second_def)
  ultimately show ?thesis
    using relative_reminder_keeps_its_fire_time
      [of "''tea''" "10 * minute" "1 * second" 0 init_state]
    by (cases "reminders (add_reminder ''tea'' (1 / 4) True 0 (1 * second) init_state)"
        rule: rev_cases) (simp_all add: init_state_def)
qed

lemma fold_max_Max: "fold max xs x = Max (set (x # xs))"
  by (simp only: Max.set_eq_fold)

lemma max_default_Max: "xs \<noteq> [] \<Longrightarrow> max_default xs d = Max (set xs)"
  by (cases xs) (simp_all only: max_default.simps fold_max_Max list.distinct, simp)

lemma max_default_ge: "x \<in> set xs \<Longrightarrow> x \<le> max_default xs d"
  by (cases "xs = []") (simp_all add: max_default_Max)

lemma schedule_reminder_id: "r_id (fst (schedule_reminder now r)) = r_id r"
  by (simp add: schedule_reminder_def Let_def split: option.splits stamp.splits)

lemma add_reminder_ids:
  "name \<noteq> [] \<Longrightarrow>
     map r_id (reminders (add_reminder name hours rel created now s)) =
       map r_id (reminders s) @ [max_default (map r_id (reminders s)) 0 + 1]"
  by (simp add: add_reminder_def Let_def schedule_reminder_id)

lemma del_reminder_ids:
  "map r_id (reminders (del_reminder rid s)) = filter (\<lambda>i. i \<noteq> rid) (map r_id (reminders s))"
  by (simp add: del_reminder_def filter_map comp_def)

text \<open>
  Claim C10 as stated, that the reminder added after the one with the highest id was
  deleted gets that id again, fails when the id below is free: of the reminders 1, 2 and
  3, delete 2 and then 3, the highest; the next reminder gets the id 2, not 3.
\<close>

theorem reminder_after_highest_deleted_gets_lower_id:
  "map r_id (reminders
      (del_reminder 2
        (add_reminder ''c'' 1 True 0 0
          (add_reminder ''b'' 1 True 0 0 (add_reminder ''a'' 1 True 0 0 init_state))))) = [1, 3]
   \<and> map r_id (reminders
      (add_reminder ''d'' 1 True 0 0
        (del_reminder 3
          (del_reminder 2
            (add_reminder ''c'' 1 True 0 0
              (add_reminder ''b'' 1 True 0 0 (add_reminder ''a'' 1 True 0 0 init_state))))))) = [1, 2]"
  by (simp add: add_reminder_def del_reminder_def init_state_def schedule_reminder_def Let_def)

text \<open>
  Claim C10, amended: \<^verbatim>\<open>add_reminder\<close> gives the new reminder the highest id among the
  existing reminders (0 if there are none) plus 1, which is above every existing id. So
  the reminder added after a reminder with id \<open>m\<close> was deleted gets \<open>m\<close> again exactly when
  the highest id left (0 if none is left) is \<open>m - 1\<close>; in particular a reminder that is
  deleted right after it was added hands its id to the next one. Ids are distinct only
  among reminders that exist together.
\<close>

theorem reminder_ids_can_be_reused:
  assumes "name \<noteq> []" and "name' \<noteq> []"
  shows "map r_id (reminders (add_reminder name hours rel created now s)) =
       map r_id (reminders s) @ [max_default (map r_id (reminders s)) 0 + 1]
    \<and> (\<forall>x \<in> set (reminders s). r_id x < max_default (map r_id (reminders s)) 0 + 1)
    \<and> (r_id (last (reminders (add_reminder name hours rel created now (del_reminder m s)))) = m
         \<longleftrightarrow> max_default (map r_id (reminders (del_reminder m s))) 0 = m - 1)
    \<and> map r_id (reminders (add_reminder name' hours' rel' created' now'
           (del_reminder (max_default (map r_id (reminders s)) 0 + 1)
              (add_reminder name hours rel created now s))))
         = map r_id (reminders s) @ [max_default (map r_id (reminders s)) 0 + 1]"
proof -
  let ?ids = "map r_id (reminders s)"
  let ?new = "max_default ?ids 0 + 1"
  have ids: "map r_id (reminders (add_reminder name hours rel created now s)) = ?ids @ [?new]"
    using assms(1) by (rule add_reminder_ids)
  have fresh: "i < ?new" if "i \<in> set ?ids" for i
    using max_default_ge [OF that, of 0] by simp
  have "last (map r_id (reminders (add_reminder name hours rel created now (del_reminder m s))))
      = max_default (map r_id (reminders (del_reminder m s))) 0 + 1"
    using assms(1) by (simp add: add_reminder_ids)
  moreover have "reminders (add_reminder name hours rel created now (del_reminder m s)) \<noteq> []"
    using assms(1) by (simp add: add_reminder_def Let_def)
  ultimately have after_del:
    "r_id (last (reminders (add_reminder name hours rel created now (del_reminder m s))))
      = max_default (map r_id (reminders (del_reminder m s))) 0 + 1"
    by (simp add: last_map)
  have "\<forall>i \<in> set ?ids. i \<noteq> ?new"
    using fresh by blast
  then have "filter (\<lambda>i. i \<noteq> ?new) ?ids = ?ids"
    by (simp only: filter_id_conv)
  then have restored: "map r_id (reminders
      (del_reminder ?new (add_reminder name hours rel created now s))) = ?ids"
    by (simp add: del_reminder_ids ids)
  have again: "map r_id (reminders (add_reminder name' hours' rel' created' now'
      (del_reminder ?new (add_reminder name hours rel created now s)))) = ?ids @ [?new]"
    using assms(2) by (simp add: add_reminder_ids restored)
  have fresh': "\<forall>x \<in> set (reminders s). r_id x < ?new"
    using fresh by simp
  show ?thesis
    using ids fresh' after_del again by auto
qed

theorem reminder_ids_can_be_reused_witness:
  "map r_id (reminders (add_reminder ''tea'' (1 / 4) True 0 0 init_state)) = [1]
   \<and> map r_id (reminders (add_reminder ''walk'' (1 / 2) True 9 9
        (del_reminder 1 (add_reminder ''tea'' (1 / 4) True 0 0 init_state)))) = [1]"
  using reminder_ids_can_be_reused [of "''tea''" "''walk''" "1 / 4" True 0 0 init_state 0
      "1 / 2" True 9 9]
  by (simp add: init_state_def)

section \<open>Task ids\<close>

lemma apply_loaded_state_ids:
  "ids_below_next (apply_loaded_state (Object d) s)"
proof -
  define ts where "ts = load_tasks (case d_tasks d of None \<Rightarrow> [] | Some xs \<Rightarrow> xs)"
  define n where "n = (case d_next_task_id d of None \<Rightarrow> 1 | Some n \<Rightarrow> n)"
  show ?thesis
  proof (cases ts)
    case Nil
    then show ?thesis
      by (simp add: apply_loaded_state_def Let_def ids_below_next_def ts_def [symmetric])
  next
    case (Cons t ts')
    have "t_id x < fold max (map t_id ts') (t_id t) + 1" if "x \<in> set ts" for x
    proof -
      have "t_id x \<in> set (t_id t # map t_id ts')" using that Cons by auto
      then have "t_id x \<le> Max (set (t_id t # map t_id ts'))" by (simp only: Max_ge List.finite_set)
      then show ?thesis by (simp only: fold_max_Max)
    qed
    then have "\<forall>x \<in> set ts. t_id x < max n (fold max (map t_id ts') (t_id t) + 1)"
      by (simp add: less_max_iff_disj)
    then show ?thesis
      using Cons
      by (simp add: apply_loaded_state_def Let_def ids_below_next_def ts_def [symmetric]
          n_def [symmetric] list_all_iff)
  qed
qed

text \<open>Whatever the state file holds, the program starts with every task id below the next id.\<close>

lemma startup_ids: "ids_below_next (startup now f)"
proof -
  have "ids_below_next (load_state f init_state)"
  proof (cases f)
    case (Parsed data)
    then show ?thesis
      by (cases data)
        (simp_all add: load_state_def apply_loaded_state_ids,
         simp add: apply_loaded_state_def ids_below_next_def init_state_def)
  qed (simp_all add: load_state_def ids_below_next_def init_state_def)
  then show ?thesis by (simp add: ids_below_next_def startup_frame)
qed

lemma stop_timer_frame:
  "stop_timer now s = Inr s' \<Longrightarrow> tasks s' = tasks s \<and> next_task_id s' = next_task_id s"
  by (auto simp: stop_timer_def Let_def split: option.splits if_splits prod.splits)

text \<open>
  \<^verbatim>\<open>del_task\<close> never raises: it stops the timer only when the timer has the id of the
  task, so the key that \<^verbatim>\<open>stop_timer\<close> reads is there.
\<close>

lemma del_task_total:
  "\<exists>s1. del_task now tid s = Inr (s1\<lparr>tasks := filter (\<lambda>t. t_id t \<noteq> tid) (tasks s)\<rparr>)
      \<and> next_task_id s1 = next_task_id s"
proof (cases "active_timer s")
  case None
  then show ?thesis by (auto simp: del_task_def)
next
  case (Some a)
  show ?thesis
  proof (cases "a_task_id a = Some tid")
    case False
    then show ?thesis using Some by (auto simp: del_task_def)
  next
    case True
    have "\<exists>s'. stop_timer now s = Inr s'"
      using Some True
      by (auto simp: stop_timer_def Let_def split: option.splits if_splits prod.splits)
    then obtain s' where s': "stop_timer now s = Inr s'" by blast
    from stop_timer_frame [OF this] show ?thesis
      using Some True s' by (auto simp: del_task_def)
  qed
qed

lemma inc_loop_ids: "map t_id (fst (inc_loop tid ts)) = map t_id ts"
  by (induction ts) (auto simp: Let_def split: prod.splits)

lemma dec_loop_ids: "map t_id (dec_loop tid ts) = map t_id ts"
  by (induction ts) auto

lemma ids_below_next_map:
  "ids_below_next s = (\<forall>i \<in> set (map t_id (tasks s)). i < next_task_id s)"
  by (auto simp: ids_below_next_def list_all_iff)

text \<open>
  A command keeps the ids below the next id; it either assigns no id and does not lower
  the next id, or assigns the next id and raises it by one.
\<close>

lemma step_spec:
  assumes "ids_below_next s"
  shows "ids_below_next (step c s)
     \<and> (added_ids c s = [] \<and> next_task_id s \<le> next_task_id (step c s)
        \<or> added_ids c s = [next_task_id s] \<and> next_task_id (step c s) = next_task_id s + 1)"
proof (cases c)
  case (AddTask name units now)
  then show ?thesis
    using assms
    by (auto simp: step_def added_ids_def add_task_def Let_def ids_below_next_def list_all_iff)
next
  case (DelTask now tid)
  obtain s1 where "del_task now tid s = Inr (s1\<lparr>tasks := filter (\<lambda>t. t_id t \<noteq> tid) (tasks s)\<rparr>)"
    "next_task_id s1 = next_task_id s"
    using del_task_total by blast
  then show ?thesis
    using assms DelTask
    by (auto simp: step_def added_ids_def ids_below_next_def list_all_iff)
next
  case (Progress p)
  have "map t_id (tasks (step c s)) = map t_id (tasks s) \<and> next_task_id (step c s) = next_task_id s"
    using Progress
    by (cases p)
      (simp_all add: step_def inc_task_tasks inc_task_next dec_task_def inc_loop_ids
        dec_loop_ids)
  then show ?thesis
    using assms Progress by (simp add: ids_below_next_map added_ids_def)
next
  case (Restart now)
  have "ids_below_next (step c s)" using Restart by (simp add: step_def startup_ids)
  moreover have "next_task_id s \<le> next_task_id (step c s)"
    using Restart load_saved [of s init_state] by (simp add: step_def startup_frame)
  ultimately show ?thesis using Restart by (simp add: added_ids_def)
qed

lemma assigned_increasing:
  "ids_below_next s \<Longrightarrow>
     sorted_wrt (<) (assigned cmds s) \<and> (\<forall>i \<in> set (assigned cmds s). next_task_id s \<le> i)"
proof (induction cmds arbitrary: s)
  case Nil
  show ?case by simp
next
  case (Cons c cmds)
  from step_spec [OF Cons.prems, of c]
  have inv: "ids_below_next (step c s)"
    and cases: "added_ids c s = [] \<and> next_task_id s \<le> next_task_id (step c s)
        \<or> added_ids c s = [next_task_id s] \<and> next_task_id (step c s) = next_task_id s + 1"
    by simp_all
  from Cons.IH [OF inv]
  have ih: "sorted_wrt (<) (assigned cmds (step c s))"
    "\<forall>i \<in> set (assigned cmds (step c s)). next_task_id (step c s) \<le> i"
    by simp_all
  from cases show ?case
  proof
    assume "added_ids c s = [] \<and> next_task_id s \<le> next_task_id (step c s)"
    then show ?thesis using ih by auto
  next
    assume "added_ids c s = [next_task_id s] \<and> next_task_id (step c s) = next_task_id s + 1"
    then show ?thesis using ih by auto
  qed
qed

text \<open>
  Claim C7: from any start of the program, on any state file, the ids that
  \<^verbatim>\<open>add_task\<close> assigns during a run of additions, deletions, progress clicks and
  restarts on the saved state strictly increase, and each is greater than the id of every
  task that was loaded at the start.
\<close>

theorem task_ids_strictly_increase:
  "sorted_wrt (<) (assigned cmds (startup now f))
   \<and> (\<forall>i \<in> set (assigned cmds (startup now f)).
        \<forall>t \<in> set (tasks (startup now f)). t_id t < i)"
proof -
  have inv: "ids_below_next (startup now f)" by (rule startup_ids)
  from assigned_increasing [OF inv, of cmds] show ?thesis
    using inv by (fastforce simp: ids_below_next_def list_all_iff)
qed

theorem task_ids_strictly_increase_witness:
  "assigned [AddTask ''a'' 1 0, AddTask ''b'' 2 1, DelTask 2 2, Restart 3, AddTask ''c'' 1 4]
      (startup 0 NoFile) = [1, 2, 3]
   \<and> sorted_wrt (<) (assigned
        [AddTask ''a'' 1 0, AddTask ''b'' 2 1, DelTask 2 2, Restart 3, AddTask ''c'' 1 4]
        (startup 0 NoFile))"
  using task_ids_strictly_increase [of
      "[AddTask ''a'' 1 0, AddTask ''b'' 2 1, DelTask 2 2, Restart 3, AddTask ''c'' 1 4]" 0 NoFile]
  by (simp add: startup_def load_state_def init_state_def ensure_active_task_valid_def
      schedule_all_reminders_def step_def added_ids_def add_task_def del_task_def
      save_state_def save_task_def apply_loaded_state_def Let_def)

section \<open>Validation on load\<close>

text \<open>
  Claim C8: of two task records with the keys id, name, units and done and one record
  without units, exactly the two are loaded, with their values; a record without units is
  skipped wherever it stands in the collection, and the time logs, the reminders and the
  timer are loaded as without it.
\<close>

theorem load_drops_only_the_malformed_task:
  assumes "k_id g1 = Some i1" and "k_name g1 = Some n1" and "k_units g1 = Some u1"
    and "k_done g1 = Some c1"
    and "k_id g2 = Some i2" and "k_name g2 = Some n2" and "k_units g2 = Some u2"
    and "k_done g2 = Some c2"
    and "k_units b = None"
  shows "tasks (apply_loaded_state (Object (d\<lparr>d_tasks := Some [Dict g1, Dict b, Dict g2]\<rparr>)) s)
     = [\<lparr>t_id = i1, t_name = n1, t_units = u1, t_done = c1, t_created = k_created g1,
         t_archived = (case k_archived g1 of None \<Rightarrow> False | Some x \<Rightarrow> x),
         t_is_today = (case k_is_today g1 of None \<Rightarrow> True | Some x \<Rightarrow> x)\<rparr>,
        \<lparr>t_id = i2, t_name = n2, t_units = u2, t_done = c2, t_created = k_created g2,
         t_archived = (case k_archived g2 of None \<Rightarrow> False | Some x \<Rightarrow> x),
         t_is_today = (case k_is_today g2 of None \<Rightarrow> True | Some x \<Rightarrow> x)\<rparr>]
   \<and> tasks (apply_loaded_state (Object (d\<lparr>d_tasks := Some (xs @ [Dict b] @ ys)\<rparr>)) s)
     = tasks (apply_loaded_state (Object (d\<lparr>d_tasks := Some (xs @ ys)\<rparr>)) s)
   \<and> time_logs (apply_loaded_state (Object (d\<lparr>d_tasks := Some (xs @ [Dict b] @ ys)\<rparr>)) s)
     = load_time_logs (case d_time_logs d of None \<Rightarrow> [] | Some xs \<Rightarrow> xs)
   \<and> reminders (apply_loaded_state (Object (d\<lparr>d_tasks := Some (xs @ [Dict b] @ ys)\<rparr>)) s)
     = load_reminders (case d_reminders d of None \<Rightarrow> [] | Some xs \<Rightarrow> xs)
   \<and> active_timer (apply_loaded_state (Object (d\<lparr>d_tasks := Some (xs @ [Dict b] @ ys)\<rparr>)) s)
     = d_active_timer d"
  using assms
  by (simp add: apply_loaded_state_collections load_tasks_append split: option.splits)

theorem load_drops_only_the_malformed_task_witness:
  "map t_name (tasks (apply_loaded_state
      (Object \<lparr>d_tasks = Some
          [Dict \<lparr>k_id = Some 1, k_name = Some ''read'', k_units = Some 3, k_done = Some 1,
             k_created = Absent, k_archived = None, k_is_today = None\<rparr>,
           Dict \<lparr>k_id = Some 2, k_name = Some ''broken'', k_units = None, k_done = Some 0,
             k_created = Absent, k_archived = None, k_is_today = None\<rparr>,
           Dict \<lparr>k_id = Some 3, k_name = Some ''write'', k_units = Some 2, k_done = Some 0,
             k_created = Absent, k_archived = None, k_is_today = None\<rparr>],
         d_time_logs = Some
          [Dict \<lparr>g_task_id = Some 2, g_start = Some (At 0), g_end = At (5 * second),
             g_duration = Some (5 * second)\<rparr>],
         d_reminders = None, d_active_timer = None, d_next_task_id = Some 4\<rparr>)
      init_state)) = [''read'', ''write'']
   \<and> time_logs (apply_loaded_state
      (Object \<lparr>d_tasks = Some
          [Dict \<lparr>k_id = Some 1, k_name = Some ''read'', k_units = Some 3, k_done = Some 1,
             k_created = Absent, k_archived = None, k_is_today = None\<rparr>,
           Dict \<lparr>k_id = Some 2, k_name = Some ''broken'', k_units = None, k_done = Some 0,
             k_created = Absent, k_archived = None, k_is_today = None\<rparr>,
           Dict \<lparr>k_id = Some 3, k_name = Some ''write'', k_units = Some 2, k_done = Some 0,
             k_created = Absent, k_archived = None, k_is_today = None\<rparr>],
         d_time_logs = Some
          [Dict \<lparr>g_task_id = Some 2, g_start = Some (At 0), g_end = At (5 * second),
             g_duration = Some (5 * second)\<rparr>],
         d_reminders = None, d_active_timer = None, d_next_task_id = Some 4\<rparr>)
      init_state)
     = [\<lparr>l_task_id = 2, l_start = At 0, l_end = At (5 * second), l_duration = 5 * second\<rparr>]"
  using load_drops_only_the_malformed_task [of
      "\<lparr>k_id = Some 1, k_name = Some ''read'', k_units = Some 3, k_done = Some 1,
             k_created = Absent, k_archived = None, k_is_today = None\<rparr>" 1 "''read''" 3 1
      "\<lparr>k_id = Some 3, k_name = Some ''write'', k_units = Some 2, k_done = Some 0,
             k_created = Absent, k_archived = None, k_is_today = None\<rparr>" 3 "''write''" 2 0
      "\<lparr>k_id = Some 2, k_name = Some ''broken'', k_units = None, k_done = Some 0,
             k_created = Absent, k_archived = None, k_is_today = None\<rparr>"
      "\<lparr>d_tasks = None, d_time_logs = Some
          [Dict \<lparr>g_task_id = Some 2, g_start = Some (At 0), g_end = At (5 * second),
             g_duration = Some (5 * second)\<rparr>],
         d_reminders = None, d_active_timer = None, d_next_task_id = Some 4\<rparr>"
      init_state
      "[Dict \<lparr>k_id = Some 1, k_name = Some ''read'', k_units = Some 3, k_done = Some 1,
             k_created = Absent, k_archived = None, k_is_today = None\<rparr>]"
      "[Dict \<lparr>k_id = Some 3, k_name = Some ''write'', k_units = Some 2, k_done = Some 0,
             k_created = Absent, k_archived = None, k_is_today = None\<rparr>]"]
  by simp

text \<open>
  Claim C9: the loader looks only at the presence of the keys id, name, units and done.
  A record that has them is loaded with its values whatever they are, a done count above
  the units or below 0 included, so the invariant of a task is not restored on load; a
  record that lacks one of them is skipped.
\<close>

theorem load_accepts_any_done_value:
  "tasks (apply_loaded_state
      (Object (d\<lparr>d_tasks := Some (xs @ [Dict \<lparr>k_id = Some i, k_name = Some n, k_units = Some u,
          k_done = Some c, k_created = cr, k_archived = ar, k_is_today = td\<rparr>] @ ys)\<rparr>)) s)
    = load_tasks xs @
      [\<lparr>t_id = i, t_name = n, t_units = u, t_done = c, t_created = cr,
        t_archived = (case ar of None \<Rightarrow> False | Some x \<Rightarrow> x),
        t_is_today = (case td of None \<Rightarrow> True | Some x \<Rightarrow> x)\<rparr>] @ load_tasks ys
   \<and> (k_id r = None \<or> k_name r = None \<or> k_units r = None \<or> k_done r = None
        \<longrightarrow> load_tasks [Dict r] = [])"
  by (auto simp add: apply_loaded_state_collections load_tasks_append split: option.splits)

theorem load_accepts_any_done_value_witness:
  "tasks (apply_loaded_state
      (Object \<lparr>d_tasks = Some
          [Dict \<lparr>k_id = Some 1, k_name = Some ''read'', k_units = Some 3, k_done = Some 5,
             k_created = Absent, k_archived = None, k_is_today = None\<rparr>,
           Dict \<lparr>k_id = Some 2, k_name = Some ''write'', k_units = Some 3, k_done = Some (- 2),
             k_created = Absent, k_archived = None, k_is_today = None\<rparr>],
         d_time_logs = None, d_reminders = None, d_active_timer = None,
         d_next_task_id = None\<rparr>) init_state)
    = [\<lparr>t_id = 1, t_name = ''read'', t_units = 3, t_done = 5, t_created = Absent,
         t_archived = False, t_is_today = True\<rparr>,
       \<lparr>t_id = 2, t_name = ''write'', t_units = 3, t_done = - 2, t_created = Absent,
         t_archived = False, t_is_today = True\<rparr>]
   \<and> \<not> in_range \<lparr>t_id = 1, t_name = ''read'', t_units = 3, t_done = 5, t_created = Absent,
         t_archived = False, t_is_today = True\<rparr>
   \<and> \<not> in_range \<lparr>t_id = 2, t_name = ''write'', t_units = 3, t_done = - 2, t_created = Absent,
         t_archived = False, t_is_today = True\<rparr>
   \<and> load_tasks [Dict \<lparr>k_id = Some 3, k_name = Some ''walk'', k_units = Some 1, k_done = None,
             k_created = Absent, k_archived = None, k_is_today = None\<rparr>] = []"
  using load_accepts_any_done_value [where d =
      "\<lparr>d_tasks = None, d_time_logs = None, d_reminders = None, d_active_timer = None,
         d_next_task_id = None\<rparr>"
      and xs = "[]" and i = 1 and n = "''read''" and u = 3 and c = 5 and cr = Absent
      and ar = None and td = None and ys =
      "[Dict \<lparr>k_id = Some 2, k_name = Some ''write'', k_units = Some 3, k_done = Some (- 2),
             k_created = Absent, k_archived = None, k_is_today = None\<rparr>]"
      and s = init_state and r =
      "\<lparr>k_id = Some 3, k_name = Some ''walk'', k_units = Some 1, k_done = None,
             k_created = Absent, k_archived = None, k_is_today = None\<rparr>"]
  by (simp add: in_range_def)

end
